theory Spec2Isabelle
  imports Main
begin

section \<open>Errors\<close>

text \<open>
  The Python exceptions that the modelled functions can raise. \<open>GQLException\<close> carries
  its message, as \<^verbatim>\<open>core/twitch.py\<close> constructs it.
\<close>

datatype error =
    AttributeError
  | GQLException string
  | ZeroDivisionError
  | RequestError

section \<open>core/storage.py\<close>

subsection \<open>Data classes\<close>

record Game =
  g_id :: string
  g_name :: string
  g_display_name :: string
  g_box_art_url :: string

record Stream =
  st_id :: string
  st_user_id :: string
  st_user_login :: string
  st_user_name :: string
  st_title :: string
  st_viewer_count :: int
  st_language :: string
  st_game_id :: string
  st_game_name :: string

text \<open>Timestamps are seconds on the UTC clock; the source renders them in ISO format.\<close>

record LogEntry =
  timestamp :: int
  level :: string
  message :: string
  log_game_id :: string
  log_stream_id :: string

record MinerStatus =
  ms_is_running :: bool
  ms_current_game :: "Game option"
  ms_current_stream :: "Stream option"
  ms_watch_duration :: int
  ms_total_watched :: int
  ms_games_queue :: "Game list"
  ms_last_update :: int

subsection \<open>Storage.add\_log\<close>

text \<open>
  What \<^verbatim>\<open>logs.json\<close> holds on disk: no file, a file that does not parse, or a JSON
  list of entries.
\<close>

datatype logs_file = NoFile | Unparsable | LogList "LogEntry list"

text \<open>
  \<^verbatim>\<open>_load_json(self.logs_file, [])\<close>: a file that exists and parses is returned as it
  is. Otherwise the function returns \<^verbatim>\<open>default or {}\<close>, and since the default \<^verbatim>\<open>[]\<close> is
  falsy that is a dict, on which \<^verbatim>\<open>append\<close> raises AttributeError.
\<close>

definition load_logs :: "logs_file \<Rightarrow> error + LogEntry list" where
  "load_logs f = (case f of LogList xs \<Rightarrow> Inr xs | NoFile \<Rightarrow> Inl AttributeError
                   | Unparsable \<Rightarrow> Inl AttributeError)"

text \<open>The list that \<^verbatim>\<open>add_log\<close> hands to \<^verbatim>\<open>_save_json\<close>: append, then keep the last 1000.\<close>

definition add_log_data :: "LogEntry list \<Rightarrow> LogEntry \<Rightarrow> LogEntry list" where
  "add_log_data logs_data entry =
     (let logs_data = logs_data @ [entry]
      in if length logs_data > 1000
         then drop (length logs_data - 1000) logs_data
         else logs_data)"

text \<open>
  How the write of \<^verbatim>\<open>_save_json\<close> goes: it goes through, \<^verbatim>\<open>open(file_path, 'w')\<close> raises, or
  \<^verbatim>\<open>json.dump\<close> raises after the file was opened. \<^verbatim>\<open>_save_json\<close> swallows the IOError (it
  prints it). A failed \<^verbatim>\<open>open\<close> leaves the file as it was; opening for writing truncates
  the file, so a dump that fails leaves a part of the text, which does not parse.
\<close>

datatype write_result = Written | OpenFails | DumpFails

definition save_logs :: "write_result \<Rightarrow> logs_file \<Rightarrow> LogEntry list \<Rightarrow> logs_file" where
  "save_logs wr f xs =
     (case wr of
        Written \<Rightarrow> LogList xs
      | OpenFails \<Rightarrow> f
      | DumpFails \<Rightarrow> Unparsable)"

definition add_log :: "write_result \<Rightarrow> logs_file \<Rightarrow> LogEntry \<Rightarrow> error + logs_file" where
  "add_log wr f entry =
     (case load_logs f of
        Inl e \<Rightarrow> Inl e
      | Inr logs_data \<Rightarrow> Inr (save_logs wr f (add_log_data logs_data entry)))"

section \<open>core/twitch.py\<close>

subsection \<open>JSON values\<close>

text \<open>
  A value decoded from JSON, as Python holds it: \<open>JNull\<close> is \<^verbatim>\<open>None\<close>, an object is a dict.
\<close>

datatype json =
    JNull
  | JBool bool
  | JNum int
  | JStr string
  | JArr "json list"
  | JObj "(string \<times> json) list"

text \<open>Python's truth value of such a value, as \<^verbatim>\<open>if value:\<close> tests it.\<close>

definition truthy :: "json \<Rightarrow> bool" where
  "truthy v =
     (case v of
        JNull \<Rightarrow> False
      | JBool b \<Rightarrow> b
      | JNum n \<Rightarrow> n \<noteq> 0
      | JStr s \<Rightarrow> s \<noteq> []
      | JArr xs \<Rightarrow> xs \<noteq> []
      | JObj kvs \<Rightarrow> kvs \<noteq> [])"

text \<open>
  The text that an f-string puts for a value: a string as it is; for any other value
  what Python's \<^verbatim>\<open>str\<close> gives, which \<open>str_of\<close> stands for.
\<close>

definition format_value :: "(json \<Rightarrow> string) \<Rightarrow> json \<Rightarrow> string" where
  "format_value str_of v = (case v of JStr s \<Rightarrow> s | _ \<Rightarrow> str_of v)"

subsection \<open>AuthManager\<close>

text \<open>
  \<^verbatim>\<open>clear\<close> deletes attributes with \<^verbatim>\<open>delattr\<close>, so an attribute of the object is either
  deleted or holds a value. The constructor sets every attribute to \<^verbatim>\<open>None\<close>;
  \<^verbatim>\<open>poll_device_auth\<close> assigns to \<^verbatim>\<open>access_token\<close> the value of a JSON field, whatever it
  is, so that attribute holds a JSON value (\<open>JNull\<close> for \<^verbatim>\<open>None\<close>); the other attributes
  hold a value of type \<^verbatim>\<open>Optional[str]\<close>. \<open>logged_in\<close> is the \<^verbatim>\<open>asyncio.Event\<close>
  \<^verbatim>\<open>_logged_in\<close>: true when the event is set.
\<close>

datatype 'a attr = Deleted | Attr 'a

record AuthManager =
  logged_in :: bool
  user_id :: "string option attr"
  access_token :: "json attr"
  device_id :: "string option attr"
  session_id :: "string option attr"
  client_version :: "string option attr"

definition AuthManager_init :: AuthManager where
  "AuthManager_init =
     \<lparr>logged_in = False, user_id = Attr None, access_token = Attr JNull,
      device_id = Attr None, session_id = Attr None, client_version = Attr None\<rparr>"

definition clear :: "AuthManager \<Rightarrow> AuthManager" where
  "clear a =
     a\<lparr>user_id := Deleted, device_id := Deleted, session_id := Deleted,
       access_token := Deleted, client_version := Deleted, logged_in := False\<rparr>"

text \<open>
  \<^verbatim>\<open>self._logged_in.is_set() and self.access_token is not None\<close>: Python's \<^verbatim>\<open>and\<close> reads
  the attribute only when the event is set, and reading a deleted attribute raises.
\<close>

definition is_logged_in :: "AuthManager \<Rightarrow> error + bool" where
  "is_logged_in a =
     (if logged_in a
      then (case access_token a of
              Deleted \<Rightarrow> Inl AttributeError
            | Attr tok \<Rightarrow> Inr (tok \<noteq> JNull))
      else Inr False)"

subsection \<open>Twitch.request\<close>

text \<open>
  The headers that \<^verbatim>\<open>request\<close> hands to \<^verbatim>\<open>session.request\<close>, from the headers the caller
  passed. \<^verbatim>\<open>if self.auth.access_token:\<close> reads the attribute and tests its truth value:
  \<^verbatim>\<open>None\<close> and the empty string add no header.
\<close>

definition request ::
  "(json \<Rightarrow> string) \<Rightarrow> AuthManager \<Rightarrow> (string \<rightharpoonup> string) \<Rightarrow> error + (string \<rightharpoonup> string)" where
  "request str_of a headers =
     (case access_token a of
        Deleted \<Rightarrow> Inl AttributeError
      | Attr tok \<Rightarrow>
          if truthy tok
          then Inr (headers(''Authorization'' \<mapsto> ''OAuth '' @ format_value str_of tok))
          else Inr headers)"

subsection \<open>Twitch.gql\_request\<close>

text \<open>One call of \<^verbatim>\<open>session.post\<close> on the GraphQL endpoint: the JSON body and the headers.\<close>

record gql_call =
  gql_payload :: json
  gql_headers :: "(string \<times> string) list"

text \<open>
  What the endpoint answers: the call raises, or a response with a status and a body
  (\<open>None\<close> when the body is not JSON, so that \<^verbatim>\<open>response.json()\<close> raises).
\<close>

datatype http_reply = NoReply | Reply int "json option"

text \<open>
  The parts of \<^verbatim>\<open>gql_request\<close>, in the order of the source. The payload is the single
  operation or the list. \<open>client_id\<close> is \<^verbatim>\<open>ClientType.WEB.CLIENT_ID\<close> of
  \<^verbatim>\<open>core/constants.py\<close>; \<open>tok\<close> and \<open>dev\<close> are the values of the attributes
  \<^verbatim>\<open>access_token\<close> and \<^verbatim>\<open>device_id\<close> (a device id that is \<^verbatim>\<open>None\<close> or empty adds no
  header).
\<close>

definition gql_payload_of :: "json list \<Rightarrow> json" where
  "gql_payload_of operations =
     (if length operations = 1 then hd operations else JArr operations)"

definition gql_headers_of ::
  "(json \<Rightarrow> string) \<Rightarrow> string \<Rightarrow> json \<Rightarrow> string option \<Rightarrow> (string \<times> string) list" where
  "gql_headers_of str_of client_id tok dev =
     (let headers =
            [(''Content-Type'', ''text/plain;charset=UTF-8''),
             (''Client-ID'', client_id),
             (''Authorization'', ''OAuth '' @ format_value str_of tok)]
      in case dev of
           None \<Rightarrow> headers
         | Some d \<Rightarrow> if d = [] then headers else headers @ [(''X-Device-Id'', d)])"

text \<open>
  The body of the \<^verbatim>\<open>async with session.post(...)\<close> block, with the one network call made.
  The status code that the source appends to the message of a failed request is left out
  of the message.
\<close>

definition gql_response :: "gql_call \<Rightarrow> http_reply \<Rightarrow> (error + json list) \<times> gql_call list" where
  "gql_response call reply =
     (case reply of
        NoReply \<Rightarrow> (Inl RequestError, [call])
      | Reply status body \<Rightarrow>
          if status \<noteq> 200
          then (Inl (GQLException ''GraphQL request failed''), [call])
          else (case body of
                  None \<Rightarrow> (Inl RequestError, [call])
                | Some json_data \<Rightarrow>
                    (case json_data of
                       JArr xs \<Rightarrow> (Inr xs, [call])
                     | _ \<Rightarrow> (Inr [json_data], [call]))))"

text \<open>
  \<^verbatim>\<open>gql_request\<close>: the result, with the list of network calls made. \<open>post\<close> is the
  endpoint: the reply it gives to a call.
\<close>

definition gql_request ::
  "(json \<Rightarrow> string) \<Rightarrow> string \<Rightarrow> AuthManager \<Rightarrow> json list \<Rightarrow> (gql_call \<Rightarrow> http_reply)
     \<Rightarrow> (error + json list) \<times> gql_call list" where
  "gql_request str_of client_id a operations post =
     (case is_logged_in a of
        Inl e \<Rightarrow> (Inl e, [])
      | Inr ok \<Rightarrow>
          if \<not> ok then (Inl (GQLException ''Not logged in''), [])
          else
            (case access_token a of
               Deleted \<Rightarrow> (Inl AttributeError, [])
             | Attr tok \<Rightarrow>
                 (case device_id a of
                    Deleted \<Rightarrow> (Inl AttributeError, [])
                  | Attr dev \<Rightarrow>
                      (let call = \<lparr>gql_payload = gql_payload_of operations,
                                   gql_headers = gql_headers_of str_of client_id tok dev\<rparr>
                       in gql_response call (post call)))))"

subsection \<open>Twitch.poll\_device\_auth\<close>

text \<open>
  The body of a token response: a JSON object, given by the value of each of its fields,
  or anything else (text that does not parse, or JSON that is not an object, on which
  \<^verbatim>\<open>json_data["access_token"]\<close> and \<^verbatim>\<open>json_data.get\<close> raise). The reply to one
  \<^verbatim>\<open>requests.post\<close>: the call raises, or a status code and a body.
\<close>

datatype body = NotObject | JsonObject "string \<rightharpoonup> json"

datatype response = ConnectionError | Response int body

text \<open>
  What one pass of the loop body does after the request: store and return the value of
  the \<^verbatim>\<open>access_token\<close> field, whatever it is (\<open>JNull\<close> for a JSON null, which Python
  holds as \<^verbatim>\<open>None\<close>), \<^verbatim>\<open>break\<close>, sleep once more and \<^verbatim>\<open>continue\<close>, or \<^verbatim>\<open>continue\<close>. A body that
  is no object and a 200 without \<^verbatim>\<open>access_token\<close> raise inside the \<^verbatim>\<open>try\<close>, and the
  handlers \<^verbatim>\<open>continue\<close>. The \<^verbatim>\<open>error\<close> field defaults to the empty string and is compared
  with the four names; any other value falls through the chain to the next attempt.
\<close>

datatype poll_step = Return json | Break | SlowDown | Continue

definition poll_attempt :: "response \<Rightarrow> poll_step" where
  "poll_attempt r =
     (case r of
        ConnectionError \<Rightarrow> Continue
      | Response status_code b \<Rightarrow>
          if status_code = 200 then
            (case b of
               NotObject \<Rightarrow> Continue
             | JsonObject json_data \<Rightarrow>
                 (case json_data ''access_token'' of
                    None \<Rightarrow> Continue
                  | Some tok \<Rightarrow> Return tok))
          else if status_code = 400 then
            (case b of
               NotObject \<Rightarrow> Continue
             | JsonObject json_data \<Rightarrow>
                 (let err = (case json_data ''error'' of None \<Rightarrow> JStr [] | Some e \<Rightarrow> e)
                  in if err = JStr ''authorization_pending'' then Continue
                     else if err = JStr ''expired_token'' \<or> err = JStr ''access_denied''
                     then Break
                     else if err = JStr ''slow_down'' then SlowDown
                     else Continue))
          else Continue)"

text \<open>
  The effects of the loop, in order: \<open>Sleep s\<close> is \<^verbatim>\<open>time.sleep(s)\<close>, \<open>Post k\<close> is the
  \<^verbatim>\<open>requests.post\<close> of the attempt with index \<open>k\<close> (from 0).
\<close>

datatype effect = Sleep int | Post nat

text \<open>
  \<^verbatim>\<open>for attempt in range(max_attempts)\<close>, with the attempts still to run as the recursion
  argument. \<open>responses k\<close> is the reply to the request of attempt \<open>k\<close>. The result is the
  returned value (\<open>JNull\<close> for Python's \<^verbatim>\<open>None\<close>, which is also what the function returns
  when the loop ends), the AuthManager and the effects.
\<close>

fun poll_loop ::
  "int \<Rightarrow> (nat \<Rightarrow> response) \<Rightarrow> nat \<Rightarrow> nat \<Rightarrow> AuthManager
     \<Rightarrow> json \<times> AuthManager \<times> effect list" where
  "poll_loop interval responses attempt 0 a = (JNull, a, [])"
| "poll_loop interval responses attempt (Suc n) a =
     (case poll_attempt (responses attempt) of
        Return tok \<Rightarrow>
          (tok, a\<lparr>access_token := Attr tok\<rparr>, [Sleep interval, Post attempt])
      | Break \<Rightarrow> (JNull, a, [Sleep interval, Post attempt])
      | SlowDown \<Rightarrow>
          (case poll_loop interval responses (Suc attempt) n a of
             (res, a', es) \<Rightarrow>
               (res, a', Sleep interval # Post attempt # Sleep interval # es))
      | Continue \<Rightarrow>
          (case poll_loop interval responses (Suc attempt) n a of
             (res, a', es) \<Rightarrow> (res, a', Sleep interval # Post attempt # es)))"

text \<open>
  \<^verbatim>\<open>max_attempts = 300 // interval\<close> is floor division, which raises for 0;
  \<^verbatim>\<open>range\<close> of a negative number is empty. The device code only goes into the payload.
\<close>

definition poll_device_auth ::
  "AuthManager \<Rightarrow> int \<Rightarrow> (nat \<Rightarrow> response)
     \<Rightarrow> error + json \<times> AuthManager \<times> effect list" where
  "poll_device_auth a interval responses =
     (if interval = 0 then Inl ZeroDivisionError
      else Inr (poll_loop interval responses 0 (nat (300 div interval)) a))"

text \<open>The indices of the attempts made, and the wait before each of them.\<close>

fun posts :: "effect list \<Rightarrow> nat list" where
  "posts [] = []"
| "posts (Sleep s # es) = posts es"
| "posts (Post k # es) = k # posts es"

text \<open>
  \<open>waits acc es\<close>: for each request in \<open>es\<close>, the time slept since the request before it
  (\<open>acc\<close> is what was slept so far).
\<close>

fun waits :: "int \<Rightarrow> effect list \<Rightarrow> int list" where
  "waits acc [] = []"
| "waits acc (Sleep s # es) = waits (acc + s) es"
| "waits acc (Post k # es) = acc # waits 0 es"

text \<open>
  The shapes of a reply that the loop tells apart: HTTP 200 with an \<^verbatim>\<open>access_token\<close>
  field of value \<open>v\<close>, and HTTP 400 with an \<^verbatim>\<open>error\<close> field that is the string \<open>err\<close>.
\<close>

definition returns_token :: "response \<Rightarrow> json \<Rightarrow> bool" where
  "returns_token r v =
     (case r of
        ConnectionError \<Rightarrow> False
      | Response status_code b \<Rightarrow>
          (case b of
             NotObject \<Rightarrow> False
           | JsonObject d \<Rightarrow> status_code = 200 \<and> d ''access_token'' = Some v))"

definition returns_error :: "response \<Rightarrow> string \<Rightarrow> bool" where
  "returns_error r err =
     (case r of
        ConnectionError \<Rightarrow> False
      | Response status_code b \<Rightarrow>
          (case b of
             NotObject \<Rightarrow> False
           | JsonObject d \<Rightarrow> status_code = 400 \<and> d ''error'' = Some (JStr err)))"

text \<open>
  Replies used as concrete inputs; \<open>replies xs r\<close> answers the first requests with the
  elements of \<open>xs\<close> and every later one with \<open>r\<close>.
\<close>

definition replies :: "response list \<Rightarrow> response \<Rightarrow> nat \<Rightarrow> response" where
  "replies xs r k = (if k < length xs then xs ! k else r)"

text \<open>
  An endpoint that gives the same reply to every call, and a session that is logged in.
  In the instances below every token that is formatted is a string, so that \<^verbatim>\<open>str\<close> is
  not applied; \<open>no_str\<close> stands in its place there.
\<close>

definition answer :: "http_reply \<Rightarrow> gql_call \<Rightarrow> http_reply" where
  "answer r call = r"

definition no_str :: "json \<Rightarrow> string" where
  "no_str v = []"

definition logged_in_auth :: AuthManager where
  "logged_in_auth = AuthManager_init\<lparr>logged_in := True, access_token := Attr (JStr ''tok'')\<rparr>"

text \<open>
  Token replies: HTTP 200 with the string \<open>tok\<close> as \<^verbatim>\<open>access_token\<close>, HTTP 200 with a
  JSON null as \<^verbatim>\<open>access_token\<close>, and HTTP 400 with the string \<open>err\<close> as \<^verbatim>\<open>error\<close>.
\<close>

definition token_reply :: "string \<Rightarrow> response" where
  "token_reply tok = Response 200 (JsonObject [''access_token'' \<mapsto> JStr tok])"

definition null_token_reply :: response where
  "null_token_reply = Response 200 (JsonObject [''access_token'' \<mapsto> JNull])"

definition error_reply :: "string \<Rightarrow> response" where
  "error_reply err = Response 400 (JsonObject [''error'' \<mapsto> JStr err])"

section \<open>core/miner.py\<close>

subsection \<open>State and environment\<close>

text \<open>
  A WebSocket client is an object of the set \<^verbatim>\<open>ws_clients\<close>, told apart by its identity.
  A message is the payload of one \<^verbatim>\<open>client.emit("message", ...)\<close>: the fields of a status
  or of a log entry.
\<close>

type_synonym client = nat

datatype message = StatusMsg MinerStatus | LogMsg LogEntry

text \<open>
  The Miner with the part of the storage it writes. \<open>ws_clients\<close> is the Python set in the
  order in which \<^verbatim>\<open>copy()\<close> is iterated; it holds no element twice. \<open>logs\<close> is the list in
  \<^verbatim>\<open>logs.json\<close> (the Storage constructor creates the file). \<open>statuses\<close> lists every status
  handed to \<^verbatim>\<open>save_miner_status\<close>, oldest first: \<^verbatim>\<open>status.json\<close> holds the last one.
  \<open>sent\<close> lists the deliveries that did not raise, oldest first.
\<close>

record Miner =
  is_running :: bool
  current_game :: "Game option"
  current_stream :: "Stream option"
  watch_start_time :: "int option"
  stop_event :: bool
  ws_clients :: "client list"
  logs :: "LogEntry list"
  statuses :: "MinerStatus list"
  sent :: "(client \<times> message) list"

text \<open>The dict that \<^verbatim>\<open>get_streams_for_game\<close> builds for one stream node.\<close>

record StreamData =
  sd_id :: string
  sd_user_login :: string
  sd_user_name :: string
  sd_title :: string
  sd_viewer_count :: int
  sd_language :: string

text \<open>
  What the Miner reads from outside during one call: the AuthManager of the Twitch
  client, the clock, the stored settings and games, the outcome of
  \<^verbatim>\<open>get_streams_for_game\<close>, the index \<^verbatim>\<open>random.choice\<close> draws, whether
  \<^verbatim>\<open>get_stream_access_token\<close> returns (otherwise it raises), and for each client and message
  whether \<^verbatim>\<open>client.emit\<close> raises.
\<close>

record world =
  auth :: AuthManager
  now :: int
  settings_games :: "string list"
  games :: "(string \<times> Game) list"
  found_streams :: "error + StreamData list"
  choice :: nat
  watch_ok :: bool
  throws :: "client \<Rightarrow> message \<Rightarrow> bool"

definition Miner_init :: Miner where
  "Miner_init =
     \<lparr>is_running = False, current_game = None, current_stream = None,
      watch_start_time = None, stop_event = False, ws_clients = [],
      logs = [], statuses = [], sent = []\<rparr>"

definition add_ws_client :: "client \<Rightarrow> Miner \<Rightarrow> Miner" where
  "add_ws_client c s =
     (if c \<in> set (ws_clients s) then s else s\<lparr>ws_clients := ws_clients s @ [c]\<rparr>)"

definition remove_ws_client :: "client \<Rightarrow> Miner \<Rightarrow> Miner" where
  "remove_ws_client c s = s\<lparr>ws_clients := removeAll c (ws_clients s)\<rparr>"

subsection \<open>Broadcasts and logging\<close>

text \<open>
  The loop of \<^verbatim>\<open>_broadcast_log_update\<close> over the copy of the client set: a client whose
  \<^verbatim>\<open>emit\<close> raises is discarded from the live set.
\<close>

fun broadcast_log_loop :: "world \<Rightarrow> LogEntry \<Rightarrow> client list \<Rightarrow> Miner \<Rightarrow> Miner" where
  "broadcast_log_loop w entry [] s = s"
| "broadcast_log_loop w entry (c # cs) s =
     broadcast_log_loop w entry cs
       (if throws w c (LogMsg entry)
        then s\<lparr>ws_clients := removeAll c (ws_clients s)\<rparr>
        else s\<lparr>sent := sent s @ [(c, LogMsg entry)]\<rparr>)"

definition broadcast_log_update :: "world \<Rightarrow> LogEntry \<Rightarrow> Miner \<Rightarrow> Miner" where
  "broadcast_log_update w entry s =
     (if ws_clients s = [] then s else broadcast_log_loop w entry (ws_clients s) s)"

text \<open>\<^verbatim>\<open>_log\<close>: build the entry, store it, broadcast it.\<close>

definition miner_log :: "world \<Rightarrow> string \<Rightarrow> string \<Rightarrow> string \<Rightarrow> string \<Rightarrow> Miner \<Rightarrow> Miner" where
  "miner_log w lvl msg game_id stream_id s =
     (let entry = \<lparr>timestamp = now w, level = lvl, message = msg,
                   log_game_id = game_id, log_stream_id = stream_id\<rparr>
      in broadcast_log_update w entry (s\<lparr>logs := add_log_data (logs s) entry\<rparr>))"

text \<open>
  The loop of \<^verbatim>\<open>_broadcast_status_update\<close>: when \<^verbatim>\<open>emit\<close> raises, the handler first logs a
  warning (which is itself broadcast to the clients of that moment) and then discards the
  client. The text of the exception is left out of the message.
\<close>

fun broadcast_status_loop :: "world \<Rightarrow> MinerStatus \<Rightarrow> client list \<Rightarrow> Miner \<Rightarrow> Miner" where
  "broadcast_status_loop w status [] s = s"
| "broadcast_status_loop w status (c # cs) s =
     broadcast_status_loop w status cs
       (if throws w c (StatusMsg status)
        then (let s1 = miner_log w ''WARNING'' ''Failed to send status update to client'' [] [] s
              in s1\<lparr>ws_clients := removeAll c (ws_clients s1)\<rparr>)
        else s\<lparr>sent := sent s @ [(c, StatusMsg status)]\<rparr>)"

definition broadcast_status_update :: "world \<Rightarrow> MinerStatus \<Rightarrow> Miner \<Rightarrow> Miner" where
  "broadcast_status_update w status s =
     (if ws_clients s = [] then s else broadcast_status_loop w status (ws_clients s) s)"

definition update_status :: "world \<Rightarrow> Miner \<Rightarrow> Miner" where
  "update_status w s =
     (let watch_duration =
            (case watch_start_time s of
               None \<Rightarrow> 0
             | Some t \<Rightarrow> if is_running s then now w - t else 0);
          status = \<lparr>ms_is_running = is_running s,
                    ms_current_game = current_game s,
                    ms_current_stream = current_stream s,
                    ms_watch_duration = watch_duration,
                    ms_total_watched = 0,
                    ms_games_queue = map snd (games w),
                    ms_last_update = now w\<rparr>
      in broadcast_status_update w status (s\<lparr>statuses := statuses s @ [status]\<rparr>))"

subsection \<open>start and stop\<close>

definition start :: "world \<Rightarrow> Miner \<Rightarrow> Miner" where
  "start w s =
     (if is_running s then s
      else update_status w
             (miner_log w ''INFO'' ''Miner started'' [] []
                (s\<lparr>is_running := True, stop_event := False\<rparr>)))"

definition stop :: "world \<Rightarrow> Miner \<Rightarrow> Miner" where
  "stop w s =
     (if \<not> is_running s then s
      else update_status w
             (miner_log w ''INFO'' ''Miner stopped'' [] []
                (s\<lparr>is_running := False, stop_event := True, current_game := None,
                   current_stream := None, watch_start_time := None\<rparr>)))"

subsection \<open>One iteration of the mining loop\<close>

text \<open>The \<^verbatim>\<open>for game_id in settings.games\<close> loop: the first id that is a key of the games.\<close>

fun select_next_game :: "string list \<Rightarrow> (string \<times> Game) list \<Rightarrow> Game option" where
  "select_next_game [] gs = None"
| "select_next_game (game_id # rest) gs =
     (case map_of gs game_id of
        Some g \<Rightarrow> Some g
      | None \<Rightarrow> select_next_game rest gs)"

definition switch_to_game :: "world \<Rightarrow> Game \<Rightarrow> Miner \<Rightarrow> Miner" where
  "switch_to_game w game s =
     update_status w
       (miner_log w ''INFO'' (''Switching to game: '' @ g_display_name game) (g_id game) []
          (s\<lparr>current_game := Some game, current_stream := None,
             watch_start_time := None\<rparr>))"

text \<open>\<^verbatim>\<open>_is_stream_live\<close>: watched for less than 30 minutes.\<close>

definition is_stream_live :: "world \<Rightarrow> Miner \<Rightarrow> bool" where
  "is_stream_live w s =
     (case watch_start_time s of
        None \<Rightarrow> True
      | Some t \<Rightarrow> now w - t < 1800)"

text \<open>
  \<^verbatim>\<open>_watch_stream\<close>: the request, then either the success log and the status update, or
  the handler, which logs and clears the stream. \<^verbatim>\<open>_check_drop_progress\<close> does nothing.
  The duration and the text of the exception are left out of the messages.
\<close>

definition watch_stream :: "world \<Rightarrow> Stream \<Rightarrow> Miner \<Rightarrow> Miner" where
  "watch_stream w stream s =
     (let game_id = (case current_game s of None \<Rightarrow> [] | Some g \<Rightarrow> g_id g)
      in if watch_ok w
         then update_status w
                (miner_log w ''SUCCESS''
                   (''Watching '' @ st_user_name stream @ '' - '' @ st_title stream)
                   game_id (st_id stream) s)
         else (let s1 = miner_log w ''ERROR''
                          (''Failed to watch stream '' @ st_user_name stream)
                          game_id (st_id stream) s
               in s1\<lparr>current_stream := None, watch_start_time := None\<rparr>))"

definition find_and_watch_stream :: "world \<Rightarrow> Game \<Rightarrow> Miner \<Rightarrow> Miner" where
  "find_and_watch_stream w game s =
     (case found_streams w of
        Inl e \<Rightarrow>
          miner_log w ''ERROR'' (''Failed to find streams for game '' @ g_display_name game)
            (g_id game) [] s
      | Inr streams \<Rightarrow>
          if streams = []
          then miner_log w ''WARNING''
                 (''No live streams found for game: '' @ g_display_name game) (g_id game) [] s
          else
            (let top = take 5 streams;
                 d = top ! (choice w mod length top);
                 selected_stream =
                   \<lparr>st_id = sd_id d, st_user_id = [], st_user_login = sd_user_login d,
                    st_user_name = sd_user_name d, st_title = sd_title d,
                    st_viewer_count = sd_viewer_count d, st_language = sd_language d,
                    st_game_id = g_id game, st_game_name = g_display_name game\<rparr>;
                 s1 = s\<lparr>current_stream := Some selected_stream,
                        watch_start_time := Some (now w)\<rparr>;
                 s2 = miner_log w ''INFO''
                        (''Started watching stream: '' @ st_user_name selected_stream
                           @ '' ('' @ st_title selected_stream @ '')'')
                        (g_id game) (st_id selected_stream) s1
             in watch_stream w selected_stream s2))"

definition continue_watching :: "world \<Rightarrow> Miner \<Rightarrow> Miner" where
  "continue_watching w s =
     (case current_stream s of
        None \<Rightarrow> s
      | Some stream \<Rightarrow> watch_stream w stream s)"

text \<open>
  \<^verbatim>\<open>_process_next_game\<close>. Reading \<^verbatim>\<open>is_logged_in\<close> is the one step that can raise out of
  it: \<^verbatim>\<open>_find_and_watch_stream\<close> and \<^verbatim>\<open>_watch_stream\<close> catch every exception.
\<close>

definition process_next_game :: "world \<Rightarrow> Miner \<Rightarrow> error + Miner" where
  "process_next_game w s =
     (case is_logged_in (auth w) of
        Inl e \<Rightarrow> Inl e
      | Inr ok \<Rightarrow>
          if \<not> ok then Inr (miner_log w ''WARNING'' ''Not logged in, cannot mine'' [] [] s)
          else if settings_games w = []
          then Inr (miner_log w ''DEBUG'' ''No games in watch list'' [] [] s)
          else
            (case select_next_game (settings_games w) (games w) of
               None \<Rightarrow> Inr (miner_log w ''WARNING'' ''No valid games found in watch list'' [] [] s)
             | Some next_game \<Rightarrow>
                 (let s1 = (if (case current_game s of
                                  None \<Rightarrow> True
                                | Some g \<Rightarrow> g_id g \<noteq> g_id next_game)
                            then switch_to_game w next_game s
                            else s)
                  in Inr (if (case current_stream s1 of
                                None \<Rightarrow> True
                              | Some stream \<Rightarrow> \<not> is_stream_live w s1)
                          then find_and_watch_stream w next_game s1
                          else continue_watching w s1))))"

text \<open>
  One pass of the \<^verbatim>\<open>while\<close> loop of \<^verbatim>\<open>_mining_loop\<close> during which no other thread calls the
  Miner: the loop condition, the iteration, and the handler that logs an exception of
  the iteration. The sleeps change no state. (A pass during which \<^verbatim>\<open>stop\<close> runs is
  modelled further down.)
\<close>

definition mining_loop_iteration :: "world \<Rightarrow> Miner \<Rightarrow> Miner" where
  "mining_loop_iteration w s =
     (if is_running s \<and> \<not> stop_event s
      then (case process_next_game w s of
              Inr s' \<Rightarrow> s'
            | Inl e \<Rightarrow> miner_log w ''ERROR'' ''Mining loop iteration error'' [] [] s)
      else s)"

subsection \<open>Runs of the Miner\<close>

text \<open>
  A run is a sequence of calls on a new Miner, each with the world it meets: the public
  calls and the passes of the loop, one after the other.
\<close>

datatype action =
    Start world
  | Stop world
  | Iteration world
  | AddClient client
  | RemoveClient client

fun step :: "action \<Rightarrow> Miner \<Rightarrow> Miner" where
  "step (Start w) s = start w s"
| "step (Stop w) s = stop w s"
| "step (Iteration w) s = mining_loop_iteration w s"
| "step (AddClient c) s = add_ws_client c s"
| "step (RemoveClient c) s = remove_ws_client c s"

fun run :: "action list \<Rightarrow> Miner \<Rightarrow> Miner" where
  "run [] s = s"
| "run (a # as) s = run as (step a s)"

subsection \<open>A pass that waits for the network while stop runs\<close>

text \<open>
  The calls come from other threads than the loop. \<^verbatim>\<open>_find_and_watch_stream\<close> begins with
  \<^verbatim>\<open>await self.twitch.get_streams_for_game(...)\<close>, a request that the session lets take
  up to 10 seconds, and everything else of the function runs when the request has
  returned. \<^verbatim>\<open>stop\<close> waits for the loop thread with \<^verbatim>\<open>join(timeout=5)\<close> and then goes on,
  so a \<^verbatim>\<open>stop\<close> can run to its end while a pass waits for its streams.

  \<open>pass_to_discovery\<close> is the pass from the loop condition up to that request: the state
  in which the pass waits and the game it asked for, or \<open>None\<close> for a pass that does not
  get to the request.
\<close>

definition pass_to_discovery :: "world \<Rightarrow> Miner \<Rightarrow> (Miner \<times> Game) option" where
  "pass_to_discovery w s =
     (if is_running s \<and> \<not> stop_event s
      then (case is_logged_in (auth w) of
              Inl e \<Rightarrow> None
            | Inr ok \<Rightarrow>
                if \<not> ok \<or> settings_games w = [] then None
                else
                  (case select_next_game (settings_games w) (games w) of
                     None \<Rightarrow> None
                   | Some next_game \<Rightarrow>
                       (let s1 = (if (case current_game s of
                                        None \<Rightarrow> True
                                      | Some g \<Rightarrow> g_id g \<noteq> g_id next_game)
                                  then switch_to_game w next_game s
                                  else s)
                        in if (case current_stream s1 of
                                 None \<Rightarrow> True
                               | Some stream \<Rightarrow> \<not> is_stream_live w s1)
                           then Some (s1, next_game)
                           else None)))
      else None)"

text \<open>
  What happens, in the order in which it happens: a call that runs to its end, a pass
  that begins and runs up to its discovery request, and the return of that request,
  after which the rest of the pass runs. The state is the Miner and the game whose
  streams the waiting pass asked for, if a pass waits. A pass that does not get to the
  request runs to its end at once; the one loop thread begins no pass while it waits.
\<close>

datatype event = Call action | PassBegins world | PassResumes world

fun occurs :: "event \<Rightarrow> Miner \<times> Game option \<Rightarrow> Miner \<times> Game option" where
  "occurs (Call (Iteration w)) (s, Some g) = (s, Some g)"
| "occurs (Call a) (s, waiting) = (step a s, waiting)"
| "occurs (PassBegins w) (s, None) =
     (case pass_to_discovery w s of
        None \<Rightarrow> (mining_loop_iteration w s, None)
      | Some (s1, g) \<Rightarrow> (s1, Some g))"
| "occurs (PassBegins w) (s, Some g) = (s, Some g)"
| "occurs (PassResumes w) (s, None) = (s, None)"
| "occurs (PassResumes w) (s, Some g) = (find_and_watch_stream w g s, None)"

fun schedule :: "event list \<Rightarrow> Miner \<times> Game option \<Rightarrow> Miner \<times> Game option" where
  "schedule [] st = st"
| "schedule (e # es) st = schedule es (occurs e st)"

subsection \<open>Concrete inputs\<close>

text \<open>
  Clients whose delivery never raises, and clients of which exactly \<open>c0\<close> raises on every
  delivery.
\<close>

definition no_throw :: "client \<Rightarrow> message \<Rightarrow> bool" where
  "no_throw c msg = False"


definition game_A :: Game where
  "game_A = \<lparr>g_id = ''gameA'', g_name = ''Game A'', g_display_name = ''Game A'',
             g_box_art_url = []\<rparr>"

definition game_B :: Game where
  "game_B = \<lparr>g_id = ''gameB'', g_name = ''Game B'', g_display_name = ''Game B'',
             g_box_art_url = []\<rparr>"

definition stream_1 :: StreamData where
  "stream_1 = \<lparr>sd_id = ''s1'', sd_user_login = ''one'', sd_user_name = ''One'',
               sd_title = ''first'', sd_viewer_count = 10, sd_language = ''en''\<rparr>"

definition stream_2 :: StreamData where
  "stream_2 = \<lparr>sd_id = ''s2'', sd_user_login = ''two'', sd_user_name = ''Two'',
               sd_title = ''second'', sd_viewer_count = 20, sd_language = ''en''\<rparr>"

text \<open>
  A world at time \<open>t\<close> with a logged-in session, the watch list gameA, gameB, only gameB
  in the catalog, the given streams found and the first of them drawn, a watch request
  that returns or not, and clients that never raise.
\<close>

definition world_at :: "int \<Rightarrow> StreamData list \<Rightarrow> bool \<Rightarrow> world" where
  "world_at t streams ok =
     \<lparr>auth = logged_in_auth, now = t, settings_games = [''gameA'', ''gameB''],
      games = [(''gameB'', game_B)], found_streams = Inr streams, choice = 0,
      watch_ok = ok, throws = no_throw\<rparr>"





text \<open>
  Runs: the Miner is started and its first iteration finds stream 1 and watches it; then
  the watch request of the second iteration raises; then the third iteration finds
  stream 2 and watches it.
\<close>

definition watch_run :: "action list" where
  "watch_run = [Start (world_at 0 [stream_1] True), Iteration (world_at 1 [stream_1] True)]"

definition failed_watch_run :: "action list" where
  "failed_watch_run = watch_run @ [Iteration (world_at 21 [stream_1] False)]"

definition next_watch_run :: "action list" where
  "next_watch_run = failed_watch_run @ [Iteration (world_at 41 [stream_2] True)]"

text \<open>
  A schedule: the Miner is started; its first pass selects gameB and asks for the
  streams at second 1; \<^verbatim>\<open>stop\<close> is called and, after its join has timed out, ends at
  second 7; the request returns stream 1 at second 9 and the rest of the pass runs.
\<close>

definition stop_while_waiting :: "event list" where
  "stop_while_waiting =
     [Call (Start (world_at 0 [] True)), PassBegins (world_at 1 [] True),
      Call (Stop (world_at 7 [] True))]"

definition resumed_after_stop :: "event list" where
  "resumed_after_stop = stop_while_waiting @ [PassResumes (world_at 9 [stream_1] True)]"

section \<open>Storage: the retention cap of the log\<close>

lemma add_log_data_eq:
  "add_log_data xs e = drop (length (xs @ [e]) - 1000) (xs @ [e])"
  by (simp add: add_log_data_def Let_def)

lemma add_log_data_length: "length (add_log_data xs e) \<le> 1000"
  by (simp add: add_log_data_def Let_def)

text \<open>
  Claim C9. For every stored log list and every appended entry, \<^verbatim>\<open>add_log\<close> stores the
  last 1000 elements, in order, of the previous list with the new entry appended, so the
  stored list never has more than 1000 entries. (The write is taken to go through:
  \<^verbatim>\<open>_save_json\<close> swallows an IOError, and then the list is not stored.)
\<close>

theorem add_log_keeps_last_1000:
  "add_log Written (LogList xs) e
     = Inr (LogList (drop (length (xs @ [e]) - 1000) (xs @ [e])))
   \<and> length (drop (length (xs @ [e]) - 1000) (xs @ [e])) \<le> 1000
   \<and> (length xs < 1000 \<longrightarrow> add_log Written (LogList xs) e = Inr (LogList (xs @ [e])))
   \<and> (1000 \<le> length xs \<longrightarrow>
        add_log Written (LogList xs) e = Inr (LogList (drop (length xs - 999) xs @ [e])))"
  by (simp add: add_log_def load_logs_def save_logs_def add_log_data_eq)

text \<open>
  An instance: appending to a list of 1000 entries evicts the oldest one.
\<close>

theorem add_log_keeps_last_1000_witness:
  "1000 \<le> length (replicate 1000 \<lparr>timestamp = 0, level = ''INFO'', message = ''old'',
                                   log_game_id = [], log_stream_id = []\<rparr>)
   \<and> add_log Written
        (LogList (replicate 1000 \<lparr>timestamp = 0, level = ''INFO'', message = ''old'',
                                  log_game_id = [], log_stream_id = []\<rparr>))
        \<lparr>timestamp = 1, level = ''INFO'', message = ''new'',
         log_game_id = [], log_stream_id = []\<rparr>
      = Inr (LogList (replicate 999 \<lparr>timestamp = 0, level = ''INFO'', message = ''old'',
                                     log_game_id = [], log_stream_id = []\<rparr>
                      @ [\<lparr>timestamp = 1, level = ''INFO'', message = ''new'',
                          log_game_id = [], log_stream_id = []\<rparr>]))"
  using add_log_keeps_last_1000
    [of "replicate 1000 \<lparr>timestamp = 0, level = ''INFO'', message = ''old'',
                         log_game_id = [], log_stream_id = []\<rparr>"
        "\<lparr>timestamp = 1, level = ''INFO'', message = ''new'',
          log_game_id = [], log_stream_id = []\<rparr>"]
  by simp

section \<open>Device authorization: the poll loop\<close>

lemma poll_attempt_Return: "poll_attempt r = Return tok \<longleftrightarrow> returns_token r tok"
  by (auto simp: poll_attempt_def returns_token_def Let_def
      split: response.splits body.splits option.splits if_splits)

lemma poll_attempt_Break:
  "poll_attempt r = Break \<longleftrightarrow> returns_error r ''expired_token'' \<or> returns_error r ''access_denied''"
  by (auto simp: poll_attempt_def returns_error_def Let_def
      split: response.splits body.splits option.splits if_splits)

lemma poll_attempt_SlowDown:
  "poll_attempt r = SlowDown \<longleftrightarrow> returns_error r ''slow_down''"
  by (auto simp: poll_attempt_def returns_error_def Let_def
      split: response.splits body.splits option.splits if_splits)

lemma poll_loop_logged_in:
  "poll_loop i rs k n a = (res, a', es) \<Longrightarrow> logged_in a' = logged_in a"
  by (induction n arbitrary: k res a' es) (auto split: poll_step.splits prod.splits)

lemma poll_loop_posts:
  "poll_loop i rs k n a = (res, a', es) \<Longrightarrow> \<exists>m\<le>n. posts es = [k..<k + m]"
proof (induction n arbitrary: k res a' es)
  case 0
  then show ?case by simp
next
  case (Suc n)
  show ?case
  proof (cases "poll_attempt (rs k)")
    case (Return tok)
    with Suc.prems have "posts es = [k..<k + 1]" by auto
    then show ?thesis by (intro exI[of _ 1]) simp
  next
    case Break
    with Suc.prems have "posts es = [k..<k + 1]" by auto
    then show ?thesis by (intro exI[of _ 1]) simp
  next
    case SlowDown
    with Suc.prems obtain es' where r: "poll_loop i rs (Suc k) n a = (res, a', es')"
      and es: "posts es = k # posts es'"
      by (auto split: prod.splits)
    from Suc.IH[OF r] obtain m where m: "m \<le> n" "posts es' = [Suc k..<Suc k + m]" by blast
    have "posts es = [k..<k + Suc m]" unfolding es m(2) by (simp add: upt_conv_Cons del: upt_Suc)
    with m(1) show ?thesis by (intro exI[of _ "Suc m"]) simp
  next
    case Continue
    with Suc.prems obtain es' where r: "poll_loop i rs (Suc k) n a = (res, a', es')"
      and es: "posts es = k # posts es'"
      by (auto split: prod.splits)
    from Suc.IH[OF r] obtain m where m: "m \<le> n" "posts es' = [Suc k..<Suc k + m]" by blast
    have "posts es = [k..<k + Suc m]" unfolding es m(2) by (simp add: upt_conv_Cons del: upt_Suc)
    with m(1) show ?thesis by (intro exI[of _ "Suc m"]) simp
  qed
qed

lemma poll_loop_posts_ge:
  "poll_loop i rs k n a = (res, a', es) \<Longrightarrow> j \<in> set (posts es) \<Longrightarrow> k \<le> j"
  using poll_loop_posts[of i rs k n a res a' es] by auto

lemma poll_loop_token:
  "poll_loop i rs k n a = (res, a', es) \<Longrightarrow> res \<noteq> JNull \<Longrightarrow>
     (\<exists>j\<in>set (posts es). poll_attempt (rs j) = Return res)
     \<and> a' = a\<lparr>access_token := Attr res\<rparr>"
  by (induction n arbitrary: k es) (auto split: poll_step.splits prod.splits)

lemma poll_loop_Return_last:
  "poll_loop i rs k n a = (res, a', es) \<Longrightarrow> j \<in> set (posts es) \<Longrightarrow>
   poll_attempt (rs j) = Return tok \<Longrightarrow> res = tok \<and> Suc j \<notin> set (posts es)"
proof (induction n arbitrary: k res a' es)
  case 0
  then show ?case by simp
next
  case (Suc n)
  show ?case
  proof (cases "j = k")
    case True
    with Suc.prems show ?thesis by auto
  next
    case False
    with Suc.prems obtain es' where r: "poll_loop i rs (Suc k) n a = (res, a', es')"
      and es: "posts es = k # posts es'"
      by (auto split: poll_step.splits prod.splits)
    from False Suc.prems(2) es have j: "j \<in> set (posts es')" by simp
    from poll_loop_posts_ge[OF r j] have "Suc j \<noteq> k" by simp
    with Suc.IH[OF r j Suc.prems(3)] es show ?thesis by simp
  qed
qed

lemma poll_loop_Break_last:
  "poll_loop i rs k n a = (res, a', es) \<Longrightarrow> j \<in> set (posts es) \<Longrightarrow>
   poll_attempt (rs j) = Break \<Longrightarrow> res = JNull \<and> Suc j \<notin> set (posts es)"
proof (induction n arbitrary: k res a' es)
  case 0
  then show ?case by simp
next
  case (Suc n)
  show ?case
  proof (cases "j = k")
    case True
    with Suc.prems show ?thesis by auto
  next
    case False
    with Suc.prems obtain es' where r: "poll_loop i rs (Suc k) n a = (res, a', es')"
      and es: "posts es = k # posts es'"
      by (auto split: poll_step.splits prod.splits)
    from False Suc.prems(2) es have j: "j \<in> set (posts es')" by simp
    from poll_loop_posts_ge[OF r j] have "Suc j \<noteq> k" by simp
    with Suc.IH[OF r j Suc.prems(3)] es show ?thesis by simp
  qed
qed

lemma poll_loop_exhausted:
  "poll_loop i rs k n a = (res, a', es) \<Longrightarrow>
   \<forall>j\<in>set (posts es). poll_attempt (rs j) = SlowDown \<or> poll_attempt (rs j) = Continue \<Longrightarrow>
   res = JNull \<and> length (posts es) = n"
proof (induction n arbitrary: k res a' es)
  case 0
  then show ?case by simp
next
  case (Suc n)
  from Suc.prems have "k \<in> set (posts es)"
    by (auto split: poll_step.splits prod.splits)
  with Suc.prems(2) have nt: "poll_attempt (rs k) = SlowDown \<or> poll_attempt (rs k) = Continue"
    by blast
  with Suc.prems(1) obtain es' where r: "poll_loop i rs (Suc k) n a = (res, a', es')"
      and es: "posts es = k # posts es'"
    by (auto split: prod.splits)
  from Suc.prems(2) es
  have "\<forall>j\<in>set (posts es'). poll_attempt (rs j) = SlowDown \<or> poll_attempt (rs j) = Continue"
    by simp
  from Suc.IH[OF r this] es show ?case by simp
qed

text \<open>The wait before the attempt \<open>k + m\<close>, when the attempts before it go on.\<close>

lemma poll_loop_waits:
  "\<forall>j<m. poll_attempt (rs (k + j)) = SlowDown \<or> poll_attempt (rs (k + j)) = Continue \<Longrightarrow>
   m < n \<Longrightarrow> poll_loop i rs k n a = (res, a', es) \<Longrightarrow>
   m < length (waits acc es) \<and>
   waits acc es ! m =
     (if m = 0 then acc + i
      else if poll_attempt (rs (k + m - 1)) = SlowDown then i + i else i)
   \<and> m < length (posts es) \<and> posts es ! m = k + m"
proof (induction m arbitrary: k n acc res a' es)
  case 0
  then obtain n' where n: "n = Suc n'" by (cases n) auto
  with 0 show ?case by (auto split: poll_step.splits prod.splits)
next
  case (Suc m)
  then obtain n' where n: "n = Suc n'" by (cases n) auto
  from Suc.prems(1) have nt: "poll_attempt (rs k) = SlowDown \<or> poll_attempt (rs k) = Continue"
    by (metis add.right_neutral zero_less_Suc)
  from Suc.prems(1)
  have rest: "\<forall>j<m. poll_attempt (rs (Suc k + j)) = SlowDown \<or> poll_attempt (rs (Suc k + j)) = Continue"
    by (metis Suc_less_eq add_Suc_right add_Suc)
  from Suc.prems(2) n have mn: "m < n'" by simp
  from nt Suc.prems(3) n obtain es' where r: "poll_loop i rs (Suc k) n' a = (res, a', es')"
    and es: "es = Sleep i # Post k # (if poll_attempt (rs k) = SlowDown then [Sleep i] else []) @ es'"
    by (auto split: prod.splits)
  have w: "waits acc es = (acc + i) # waits (if poll_attempt (rs k) = SlowDown then i else 0) es'"
    unfolding es by simp
  have p: "posts es = k # posts es'" unfolding es by simp
  from Suc.IH[OF rest mn r, of "if poll_attempt (rs k) = SlowDown then i else 0"]
  show ?case unfolding w p by (cases m) auto
qed


lemma poll_step_cases:
  "poll_attempt r \<noteq> Break \<Longrightarrow> \<forall>tok. poll_attempt r \<noteq> Return tok \<Longrightarrow>
   poll_attempt r = SlowDown \<or> poll_attempt r = Continue"
  by (cases "poll_attempt r") auto

lemma poll_loop_before_nonterminal:
  assumes r: "poll_loop i rs 0 n a = (res, a', es)" and j: "j \<in> set (posts es)" and l: "l < j"
  shows "poll_attempt (rs l) = SlowDown \<or> poll_attempt (rs l) = Continue"
proof -
  from poll_loop_posts[OF r] obtain m where m: "m \<le> n" "posts es = [0..<0 + m]" by blast
  from j l m have l': "l \<in> set (posts es)" and sl: "Suc l \<in> set (posts es)" by auto
  from poll_loop_Break_last[OF r l'] sl have "poll_attempt (rs l) \<noteq> Break" by blast
  moreover from poll_loop_Return_last[OF r l'] sl have "\<forall>tok. poll_attempt (rs l) \<noteq> Return tok"
    by blast
  ultimately show ?thesis by (rule poll_step_cases)
qed

lemma poll_wait_before:
  assumes r: "poll_loop i rs 0 n a = (res, a', es)" and j: "Suc j \<in> set (posts es)"
  shows "waits 0 es ! Suc j = (if poll_attempt (rs j) = SlowDown then i + i else i)"
proof -
  from poll_loop_posts[OF r] obtain m where m: "m \<le> n" "posts es = [0..<0 + m]" by blast
  from j m have jn: "Suc j < n" by auto
  have "\<forall>l<Suc j. poll_attempt (rs (0 + l)) = SlowDown \<or> poll_attempt (rs (0 + l)) = Continue"
    using poll_loop_before_nonterminal[OF r j] by simp
  from poll_loop_waits[OF this jn r, of 0] show ?thesis by simp
qed

lemma poll_next_attempt:
  assumes r: "poll_loop i rs 0 n a = (res, a', es)" and k: "k \<in> set (posts es)"
    and kn: "Suc k < n"
    and nt: "poll_attempt (rs k) = SlowDown \<or> poll_attempt (rs k) = Continue"
  shows "Suc k \<in> set (posts es)"
proof -
  have "\<forall>l<Suc k. poll_attempt (rs (0 + l)) = SlowDown \<or> poll_attempt (rs (0 + l)) = Continue"
    using poll_loop_before_nonterminal[OF r k] nt by (auto simp: less_Suc_eq)
  from poll_loop_waits[OF this kn r, of 0]
  have "Suc k < length (posts es)" "posts es ! Suc k = Suc k" by simp_all
  then show ?thesis by (metis nth_mem)
qed

text \<open>
  Claim C2, as amended. For every sequence of replies and every positive interval,
  \<^verbatim>\<open>poll_device_auth\<close> returns. It returns a value other than \<^verbatim>\<open>None\<close> (Authenticated)
  exactly when some attempt it made got HTTP 200 with an \<^verbatim>\<open>access_token\<close> field that is
  not null, and the value is that field. It returns \<^verbatim>\<open>None\<close> (Failed) when an attempt got
  HTTP 200 with a null \<^verbatim>\<open>access_token\<close>, when an attempt got HTTP 400 with
  \<^verbatim>\<open>expired_token\<close> or \<^verbatim>\<open>access_denied\<close>, and when no attempt got a token field or one of
  the two errors, in which case the whole budget of \<^verbatim>\<open>300 // interval\<close> attempts was used.
  The attempts are numbered from 0 without gaps, never exceed the budget, and an attempt
  that got a token field or one of the two errors is the last one made.
\<close>

theorem poll_device_auth_outcome:
  assumes "0 < interval"
  shows "\<exists>res a' es. poll_device_auth a interval rs = Inr (res, a', es)
     \<and> (\<forall>v. v \<noteq> JNull \<longrightarrow>
           (res = v \<longleftrightarrow> (\<exists>j\<in>set (posts es). returns_token (rs j) v)))
     \<and> (\<forall>j\<in>set (posts es).
          returns_token (rs j) JNull
            \<or> returns_error (rs j) ''expired_token'' \<or> returns_error (rs j) ''access_denied''
          \<longrightarrow> res = JNull)
     \<and> ((\<forall>j\<in>set (posts es). (\<forall>v. \<not> returns_token (rs j) v)
            \<and> \<not> returns_error (rs j) ''expired_token''
            \<and> \<not> returns_error (rs j) ''access_denied'')
          \<longrightarrow> res = JNull \<and> length (posts es) = nat (300 div interval))
     \<and> length (posts es) \<le> nat (300 div interval)
     \<and> posts es = [0..<length (posts es)]
     \<and> (\<forall>j\<in>set (posts es).
          (\<exists>v. returns_token (rs j) v) \<or> returns_error (rs j) ''expired_token''
            \<or> returns_error (rs j) ''access_denied''
          \<longrightarrow> Suc j = length (posts es))"
proof -
  define n where "n = nat (300 div interval)"
  obtain res a' es where r: "poll_loop interval rs 0 n a = (res, a', es)"
    by (cases "poll_loop interval rs 0 n a") auto
  from assms have pda: "poll_device_auth a interval rs = Inr (res, a', es)"
    by (simp add: poll_device_auth_def r[unfolded n_def])
  from poll_loop_posts[OF r] obtain m where m: "m \<le> n" "posts es = [0..<0 + m]" by blast
  then have len: "length (posts es) = m" by simp
  have c1: "\<forall>v. v \<noteq> JNull \<longrightarrow>
           (res = v \<longleftrightarrow> (\<exists>j\<in>set (posts es). returns_token (rs j) v))"
  proof (intro allI impI iffI)
    fix v :: json
    assume "v \<noteq> JNull" "res = v"
    with poll_loop_token[OF r] show "\<exists>j\<in>set (posts es). returns_token (rs j) v"
      by (auto simp: poll_attempt_Return)
  next
    fix v :: json
    assume "\<exists>j\<in>set (posts es). returns_token (rs j) v"
    then obtain j where "j \<in> set (posts es)" "poll_attempt (rs j) = Return v"
      by (auto simp: poll_attempt_Return)
    from poll_loop_Return_last[OF r this] show "res = v" by simp
  qed
  have c2: "\<forall>j\<in>set (posts es).
          returns_token (rs j) JNull
            \<or> returns_error (rs j) ''expired_token'' \<or> returns_error (rs j) ''access_denied''
          \<longrightarrow> res = JNull"
    using poll_loop_Break_last[OF r] poll_loop_Return_last[OF r]
    by (auto simp: poll_attempt_Break poll_attempt_Return[symmetric])
  have c3: "(\<forall>j\<in>set (posts es). (\<forall>v. \<not> returns_token (rs j) v)
            \<and> \<not> returns_error (rs j) ''expired_token''
            \<and> \<not> returns_error (rs j) ''access_denied'')
          \<longrightarrow> res = JNull \<and> length (posts es) = n"
  proof
    assume h: "\<forall>j\<in>set (posts es). (\<forall>v. \<not> returns_token (rs j) v)
            \<and> \<not> returns_error (rs j) ''expired_token''
            \<and> \<not> returns_error (rs j) ''access_denied''"
    have "\<forall>j\<in>set (posts es). poll_attempt (rs j) = SlowDown \<or> poll_attempt (rs j) = Continue"
    proof
      fix j assume "j \<in> set (posts es)"
      with h have "poll_attempt (rs j) \<noteq> Break" "\<forall>tok. poll_attempt (rs j) \<noteq> Return tok"
        by (auto simp: poll_attempt_Break poll_attempt_Return)
      then show "poll_attempt (rs j) = SlowDown \<or> poll_attempt (rs j) = Continue"
        by (rule poll_step_cases)
    qed
    from poll_loop_exhausted[OF r this] show "res = JNull \<and> length (posts es) = n" .
  qed
  have c6: "\<forall>j\<in>set (posts es).
          (\<exists>v. returns_token (rs j) v) \<or> returns_error (rs j) ''expired_token''
            \<or> returns_error (rs j) ''access_denied''
          \<longrightarrow> Suc j = length (posts es)"
  proof (intro ballI impI)
    fix j assume j: "j \<in> set (posts es)" and
      t: "(\<exists>v. returns_token (rs j) v) \<or> returns_error (rs j) ''expired_token''
            \<or> returns_error (rs j) ''access_denied''"
    from t have "Suc j \<notin> set (posts es)"
      using poll_loop_Break_last[OF r j] poll_loop_Return_last[OF r j]
      by (auto simp: poll_attempt_Break poll_attempt_Return)
    with j m show "Suc j = length (posts es)" by auto
  qed
  from pda c1 c2 c3 c6 m len show ?thesis unfolding n_def[symmetric] by auto
qed

text \<open>
  Claim C2 as stated fails: when the first attempt gets HTTP 200 with an \<^verbatim>\<open>access_token\<close>
  field that is null, the code stores and returns \<^verbatim>\<open>None\<close> after that one attempt, which
  is the value of a failed poll, although an attempt got HTTP 200 with the field.
\<close>

theorem null_token_counterexample:
  "returns_token (replies [] null_token_reply 0) JNull
   \<and> poll_device_auth AuthManager_init 5 (replies [] null_token_reply)
      = Inr (JNull, AuthManager_init\<lparr>access_token := Attr JNull\<rparr>, [Sleep 5, Post 0])
   \<and> posts [Sleep 5, Post 0] = [0]"
  by code_simp

text \<open>
  Claim C3, as amended. For every attempt that got HTTP 400 with \<^verbatim>\<open>slow_down\<close> and is not
  the last attempt of the budget, the loop goes on to the next attempt, and the wait
  before that attempt is twice the interval, which is more than the interval that
  precedes an attempt after any other reply. Every \<^verbatim>\<open>slow_down\<close> adds one interval to the
  next wait only: the wait does not grow over consecutive \<^verbatim>\<open>slow_down\<close> replies.
\<close>

theorem slow_down_doubles_next_wait:
  assumes "0 < interval"
    and "poll_device_auth a interval rs = Inr (res, a', es)"
    and "k \<in> set (posts es)"
    and "returns_error (rs k) ''slow_down''"
    and "Suc k < nat (300 div interval)"
  shows "Suc k \<in> set (posts es)
     \<and> waits 0 es ! Suc k = 2 * interval
     \<and> interval < waits 0 es ! Suc k
     \<and> (\<forall>j. Suc j \<in> set (posts es) \<longrightarrow>
           waits 0 es ! Suc j
             = (if returns_error (rs j) ''slow_down'' then 2 * interval else interval))"
proof -
  from assms(1,2) have r: "poll_loop interval rs 0 (nat (300 div interval)) a = (res, a', es)"
    by (simp add: poll_device_auth_def)
  from assms(4) have sd: "poll_attempt (rs k) = SlowDown" by (simp add: poll_attempt_SlowDown)
  from poll_next_attempt[OF r assms(3,5)] sd have nxt: "Suc k \<in> set (posts es)" by simp
  have w: "\<forall>j. Suc j \<in> set (posts es) \<longrightarrow>
           waits 0 es ! Suc j
             = (if returns_error (rs j) ''slow_down'' then 2 * interval else interval)"
    using poll_wait_before[OF r] by (simp add: poll_attempt_SlowDown)
  from nxt w assms(1,4) show ?thesis by simp
qed


text \<open>
  An instance: with an interval of 100 seconds, the replies
  \<^verbatim>\<open>authorization_pending\<close>, \<^verbatim>\<open>slow_down\<close>, token make three attempts and return the token.
\<close>

theorem poll_device_auth_outcome_witness:
  "0 < (100::int)
   \<and> poll_device_auth AuthManager_init 100
        (replies [error_reply ''authorization_pending'', error_reply ''slow_down'']
           (token_reply ''tok''))
      = Inr (JStr ''tok'', AuthManager_init\<lparr>access_token := Attr (JStr ''tok'')\<rparr>,
             [Sleep 100, Post 0, Sleep 100, Post 1, Sleep 100, Sleep 100, Post 2])
   \<and> returns_token
        (replies [error_reply ''authorization_pending'', error_reply ''slow_down'']
           (token_reply ''tok'') 2) (JStr ''tok'')"
proof -
  have h: "0 < (100::int)" by simp
  have e: "poll_device_auth AuthManager_init 100
        (replies [error_reply ''authorization_pending'', error_reply ''slow_down'']
           (token_reply ''tok''))
      = Inr (JStr ''tok'', AuthManager_init\<lparr>access_token := Attr (JStr ''tok'')\<rparr>,
             [Sleep 100, Post 0, Sleep 100, Post 1, Sleep 100, Sleep 100, Post 2])"
    by code_simp
  have t: "returns_token
        (replies [error_reply ''authorization_pending'', error_reply ''slow_down'']
           (token_reply ''tok'') 2) (JStr ''tok'')"
    by code_simp
  from poll_device_auth_outcome[OF h, of AuthManager_init
      "replies [error_reply ''authorization_pending'', error_reply ''slow_down'']
           (token_reply ''tok'')"] h e t
  show ?thesis by simp
qed

text \<open>An instance: the third attempt follows a \<^verbatim>\<open>slow_down\<close> and waits 200 seconds.\<close>

theorem slow_down_doubles_next_wait_witness:
  "0 < (100::int)
   \<and> poll_device_auth AuthManager_init 100
        (replies [error_reply ''authorization_pending'', error_reply ''slow_down'']
           (token_reply ''tok''))
      = Inr (JStr ''tok'', AuthManager_init\<lparr>access_token := Attr (JStr ''tok'')\<rparr>,
             [Sleep 100, Post 0, Sleep 100, Post 1, Sleep 100, Sleep 100, Post 2])
   \<and> returns_error
        (replies [error_reply ''authorization_pending'', error_reply ''slow_down'']
           (token_reply ''tok'') 1) ''slow_down''
   \<and> Suc 1 < nat (300 div 100)
   \<and> waits 0 [Sleep 100, Post 0, Sleep 100, Post 1, Sleep 100, Sleep 100, Post 2] ! Suc 1
      = 2 * 100"
proof -
  have h: "0 < (100::int)" by simp
  have e: "poll_device_auth AuthManager_init 100
        (replies [error_reply ''authorization_pending'', error_reply ''slow_down'']
           (token_reply ''tok''))
      = Inr (JStr ''tok'', AuthManager_init\<lparr>access_token := Attr (JStr ''tok'')\<rparr>,
             [Sleep 100, Post 0, Sleep 100, Post 1, Sleep 100, Sleep 100, Post 2])"
    by code_simp
  have k: "1 \<in> set (posts [Sleep 100, Post 0, Sleep 100, Post 1, Sleep 100, Sleep 100, Post 2])"
    by simp
  have sd: "returns_error
        (replies [error_reply ''authorization_pending'', error_reply ''slow_down'']
           (token_reply ''tok'') 1) ''slow_down''"
    by code_simp
  have b: "Suc 1 < nat (300 div 100)" by simp
  from slow_down_doubles_next_wait[OF h e k sd b] h e sd b
  show ?thesis by simp
qed

text \<open>
  Claim C3 as stated fails: with an interval of 300 seconds the budget is one attempt;
  when that attempt gets \<^verbatim>\<open>slow_down\<close> the loop sleeps once more and ends, with no next
  attempt.
\<close>

theorem slow_down_last_attempt_counterexample:
  "returns_error (replies [] (error_reply ''slow_down'') 0) ''slow_down''
   \<and> poll_device_auth AuthManager_init 300 (replies [] (error_reply ''slow_down''))
      = Inr (JNull, AuthManager_init, [Sleep 300, Post 0, Sleep 300])
   \<and> posts [Sleep 300, Post 0, Sleep 300] = [0]"
  by code_simp

text \<open>
  Claim C1 says that a successful poll stores the token and marks the session logged in,
  so that \<^verbatim>\<open>is_logged_in\<close> is true afterwards. The code stores the token and leaves the
  event \<^verbatim>\<open>_logged_in\<close> as it was: on a new AuthManager, after a poll whose first attempt
  got a token, \<^verbatim>\<open>is_logged_in\<close> is false; and for every input the event is after the
  poll what it was before.
\<close>

theorem poll_device_auth_never_sets_logged_in:
  "poll_device_auth AuthManager_init 5 (replies [] (token_reply ''tok''))
     = Inr (JStr ''tok'', AuthManager_init\<lparr>access_token := Attr (JStr ''tok'')\<rparr>,
            [Sleep 5, Post 0])
   \<and> is_logged_in (AuthManager_init\<lparr>access_token := Attr (JStr ''tok'')\<rparr>) = Inr False
   \<and> (case poll_device_auth a interval rs of
         Inl e \<Rightarrow> True
       | Inr (res, a', es) \<Rightarrow> logged_in a' = logged_in a)"
proof -
  have "poll_device_auth AuthManager_init 5 (replies [] (token_reply ''tok''))
     = Inr (JStr ''tok'', AuthManager_init\<lparr>access_token := Attr (JStr ''tok'')\<rparr>,
            [Sleep 5, Post 0])"
    by code_simp
  moreover have "is_logged_in (AuthManager_init\<lparr>access_token := Attr (JStr ''tok'')\<rparr>)
     = Inr False"
    by code_simp
  moreover have "case poll_device_auth a interval rs of
         Inl e \<Rightarrow> True
       | Inr (res, a', es) \<Rightarrow> logged_in a' = logged_in a"
    by (auto simp: poll_device_auth_def dest: poll_loop_logged_in)
  ultimately show ?thesis by blast
qed

section \<open>The session: clear, is\_logged\_in, gql\_request\<close>

text \<open>
  Claim C10, as amended. After \<^verbatim>\<open>clear\<close> the credential attributes are deleted, not set
  to \<^verbatim>\<open>None\<close>, so a read of \<^verbatim>\<open>access_token\<close>, as in the header injection of \<^verbatim>\<open>request\<close>,
  raises AttributeError. The \<^verbatim>\<open>is_logged_in\<close> check does not raise: \<^verbatim>\<open>clear\<close> also clears
  the event, so the check is false without reading the attribute, and \<^verbatim>\<open>gql_request\<close>
  fails with \<^verbatim>\<open>Not logged in\<close> before any network call. The check raises only when the
  event is set while the attribute is deleted.
\<close>

theorem clear_deletes_credentials:
  "access_token (clear a) = Deleted \<and> user_id (clear a) = Deleted
   \<and> device_id (clear a) = Deleted \<and> session_id (clear a) = Deleted
   \<and> client_version (clear a) = Deleted
   \<and> request str_of (clear a) headers = Inl AttributeError
   \<and> is_logged_in (clear a) = Inr False
   \<and> gql_request str_of client_id (clear a) operations post
        = (Inl (GQLException ''Not logged in''), [])
   \<and> is_logged_in ((clear a)\<lparr>logged_in := True\<rparr>) = Inl AttributeError"
  by (simp add: clear_def request_def is_logged_in_def gql_request_def)

text \<open>
  Claim C10 as stated fails: after \<^verbatim>\<open>clear\<close> on a logged-in session the \<^verbatim>\<open>is_logged_in\<close>
  check returns false, as for a session that was never authenticated; it does not raise.
\<close>

theorem is_logged_in_after_clear_counterexample:
  "is_logged_in logged_in_auth = Inr True
   \<and> is_logged_in (clear logged_in_auth) = Inr False"
  by (simp add: clear_def is_logged_in_def AuthManager_init_def logged_in_auth_def)

lemma gql_request_not_logged_in:
  "is_logged_in a = Inr False \<Longrightarrow>
     gql_request str_of client_id a operations post = (Inl (GQLException ''Not logged in''), [])"
  by (simp add: gql_request_def)

lemma gql_response_success:
  "gql_response call reply = (Inr res, calls) \<Longrightarrow>
     \<exists>json_data. reply = Reply 200 (Some json_data) \<and> calls = [call]
        \<and> res = (case json_data of JArr xs \<Rightarrow> xs | _ \<Rightarrow> [json_data])"
  by (auto simp: gql_response_def split: http_reply.splits if_splits option.splits json.splits)

lemma gql_request_success:
  assumes h: "gql_request str_of client_id a operations post = (Inr res, calls)"
  shows "is_logged_in a = Inr True
        \<and> (\<exists>call json_data. calls = [call] \<and> post call = Reply 200 (Some json_data)
             \<and> gql_payload call = gql_payload_of operations
             \<and> res = (case json_data of JArr xs \<Rightarrow> xs | _ \<Rightarrow> [json_data]))"
proof -
  from h have li: "is_logged_in a = Inr True"
    by (cases "is_logged_in a") (auto simp: gql_request_def split: if_splits)
  from h li obtain tok where tok: "access_token a = Attr tok"
    by (cases "access_token a") (auto simp: gql_request_def)
  from h li tok obtain dev where dev: "device_id a = Attr dev"
    by (cases "device_id a") (auto simp: gql_request_def)
  define call where "call = \<lparr>gql_payload = gql_payload_of operations,
                                   gql_headers = gql_headers_of str_of client_id tok dev\<rparr>"
  from h have "gql_response call (post call) = (Inr res, calls)"
    by (simp add: gql_request_def li tok dev Let_def call_def)
  from gql_response_success[OF this] li show ?thesis by (auto simp: call_def)
qed

lemma gql_request_reply_200:
  assumes "is_logged_in a = Inr True" and "device_id a = Attr dev"
    and "post \<lparr>gql_payload = gql_payload_of operations,
              gql_headers = gql_headers_of str_of client_id tok dev\<rparr> = Reply 200 (Some json_data)"
    and "access_token a = Attr tok"
  shows "\<exists>res call. gql_request str_of client_id a operations post = (Inr res, [call])
           \<and> res = (case json_data of JArr xs \<Rightarrow> xs | _ \<Rightarrow> [json_data])"
  using assms by (cases json_data) (simp_all add: gql_request_def gql_response_def Let_def)

text \<open>
  Claim C4. For every list of operations, \<^verbatim>\<open>gql_request\<close> fails with \<^verbatim>\<open>Not logged in\<close> and
  makes no network call when \<^verbatim>\<open>is_logged_in\<close> is false. When it returns, it made one call,
  the endpoint answered 200 with a JSON body, and the result is a list: the body itself
  when it is a list, otherwise the one-element list of the body, also when exactly one
  operation was sent (then the payload is that operation, not a list). A logged-in
  session whose call is answered 200 with a JSON body does return that list.
\<close>

theorem gql_request_returns_list:
  "(is_logged_in a = Inr False \<longrightarrow>
      gql_request str_of client_id a operations post = (Inl (GQLException ''Not logged in''), []))
   \<and> (\<forall>res calls. gql_request str_of client_id a operations post = (Inr res, calls) \<longrightarrow>
        (\<exists>call json_data. calls = [call] \<and> post call = Reply 200 (Some json_data)
           \<and> gql_payload call = gql_payload_of operations
           \<and> res = (case json_data of JArr xs \<Rightarrow> xs | _ \<Rightarrow> [json_data])))
   \<and> (\<forall>tok dev json_data.
         is_logged_in a = Inr True \<and> access_token a = Attr tok \<and> device_id a = Attr dev
         \<and> post \<lparr>gql_payload = gql_payload_of operations,
                  gql_headers = gql_headers_of str_of client_id tok dev\<rparr>
             = Reply 200 (Some json_data)
         \<longrightarrow> (\<exists>call. gql_request str_of client_id a operations post
                = (Inr (case json_data of JArr xs \<Rightarrow> xs | _ \<Rightarrow> [json_data]), [call])))
   \<and> (\<forall>operation. gql_payload_of [operation] = operation)"
proof (intro conjI allI impI)
  assume "is_logged_in a = Inr False"
  then show "gql_request str_of client_id a operations post = (Inl (GQLException ''Not logged in''), [])"
    by (rule gql_request_not_logged_in)
next
  fix res calls
  assume "gql_request str_of client_id a operations post = (Inr res, calls)"
  from gql_request_success[OF this]
  show "\<exists>call json_data. calls = [call] \<and> post call = Reply 200 (Some json_data)
           \<and> gql_payload call = gql_payload_of operations
           \<and> res = (case json_data of JArr xs \<Rightarrow> xs | _ \<Rightarrow> [json_data])"
    by blast
next
  fix tok dev json_data
  assume h: "is_logged_in a = Inr True \<and> access_token a = Attr tok \<and> device_id a = Attr dev
         \<and> post \<lparr>gql_payload = gql_payload_of operations,
                  gql_headers = gql_headers_of str_of client_id tok dev\<rparr>
             = Reply 200 (Some json_data)"
  then have a1: "is_logged_in a = Inr True" and a2: "device_id a = Attr dev"
    and a3: "post \<lparr>gql_payload = gql_payload_of operations,
                  gql_headers = gql_headers_of str_of client_id tok dev\<rparr>
             = Reply 200 (Some json_data)"
    and a4: "access_token a = Attr tok"
    by blast+
  from gql_request_reply_200[where post = post, OF a1 a2 a3 a4] show "\<exists>call. gql_request str_of client_id a operations post
                = (Inr (case json_data of JArr xs \<Rightarrow> xs | _ \<Rightarrow> [json_data]), [call])"
    by blast
next
  fix operation
  show "gql_payload_of [operation] = operation" by (simp add: gql_payload_of_def)
qed

text \<open>
  An instance: one operation, answered 200 with a JSON object, gives the one-element list
  of that object; the same request on a new AuthManager fails before any call.
\<close>

theorem gql_request_returns_list_witness:
  "is_logged_in AuthManager_init = Inr False
   \<and> gql_request no_str ''cid'' AuthManager_init [JObj [(''operationName'', JStr ''Inventory'')]]
        (answer (Reply 200 (Some (JObj [(''data'', JNull)]))))
      = (Inl (GQLException ''Not logged in''), [])
   \<and> gql_request no_str ''cid'' logged_in_auth [JObj [(''operationName'', JStr ''Inventory'')]]
        (answer (Reply 200 (Some (JObj [(''data'', JNull)]))))
      = (Inr [JObj [(''data'', JNull)]],
         [\<lparr>gql_payload = JObj [(''operationName'', JStr ''Inventory'')],
           gql_headers = [(''Content-Type'', ''text/plain;charset=UTF-8''),
                          (''Client-ID'', ''cid''), (''Authorization'', ''OAuth tok'')]\<rparr>])"
proof -
  have h: "is_logged_in AuthManager_init = Inr False"
    by (simp add: is_logged_in_def AuthManager_init_def)
  have e: "gql_request no_str ''cid'' logged_in_auth [JObj [(''operationName'', JStr ''Inventory'')]]
        (answer (Reply 200 (Some (JObj [(''data'', JNull)]))))
      = (Inr [JObj [(''data'', JNull)]],
         [\<lparr>gql_payload = JObj [(''operationName'', JStr ''Inventory'')],
           gql_headers = [(''Content-Type'', ''text/plain;charset=UTF-8''),
                          (''Client-ID'', ''cid''), (''Authorization'', ''OAuth tok'')]\<rparr>])"
    by (simp add: gql_request_def is_logged_in_def logged_in_auth_def AuthManager_init_def
        gql_payload_of_def gql_headers_of_def gql_response_def answer_def format_value_def)
  from gql_request_returns_list[of AuthManager_init no_str "''cid''"
      "[JObj [(''operationName'', JStr ''Inventory'')]]"
      "answer (Reply 200 (Some (JObj [(''data'', JNull)])))"] h e
  show ?thesis by simp
qed

section \<open>The Miner\<close>

subsection \<open>What logging and status updates leave unchanged\<close>

lemma broadcast_log_loop_frame:
  "is_running (broadcast_log_loop w e cs s) = is_running s
   \<and> current_game (broadcast_log_loop w e cs s) = current_game s
   \<and> current_stream (broadcast_log_loop w e cs s) = current_stream s
   \<and> watch_start_time (broadcast_log_loop w e cs s) = watch_start_time s
   \<and> stop_event (broadcast_log_loop w e cs s) = stop_event s
   \<and> logs (broadcast_log_loop w e cs s) = logs s
   \<and> statuses (broadcast_log_loop w e cs s) = statuses s"
  by (induction cs arbitrary: s) simp_all

lemma miner_log_frame:
  "is_running (miner_log w l msg g st s) = is_running s
   \<and> current_game (miner_log w l msg g st s) = current_game s
   \<and> current_stream (miner_log w l msg g st s) = current_stream s
   \<and> watch_start_time (miner_log w l msg g st s) = watch_start_time s
   \<and> stop_event (miner_log w l msg g st s) = stop_event s
   \<and> statuses (miner_log w l msg g st s) = statuses s"
  by (simp add: miner_log_def broadcast_log_update_def Let_def broadcast_log_loop_frame)

lemma broadcast_status_loop_frame:
  "is_running (broadcast_status_loop w status cs s) = is_running s
   \<and> current_game (broadcast_status_loop w status cs s) = current_game s
   \<and> current_stream (broadcast_status_loop w status cs s) = current_stream s
   \<and> watch_start_time (broadcast_status_loop w status cs s) = watch_start_time s
   \<and> stop_event (broadcast_status_loop w status cs s) = stop_event s
   \<and> statuses (broadcast_status_loop w status cs s) = statuses s"
  by (induction cs arbitrary: s) (simp_all add: Let_def miner_log_frame)

lemma update_status_frame:
  "is_running (update_status w s) = is_running s
   \<and> current_game (update_status w s) = current_game s
   \<and> current_stream (update_status w s) = current_stream s
   \<and> watch_start_time (update_status w s) = watch_start_time s
   \<and> stop_event (update_status w s) = stop_event s"
  by (simp add: update_status_def broadcast_status_update_def Let_def broadcast_status_loop_frame)

lemma watch_stream_frame:
  "is_running (watch_stream w stream s) = is_running s
   \<and> current_game (watch_stream w stream s) = current_game s
   \<and> stop_event (watch_stream w stream s) = stop_event s"
  by (simp add: watch_stream_def Let_def update_status_frame miner_log_frame)

lemma find_and_watch_stream_frame:
  "is_running (find_and_watch_stream w game s) = is_running s
   \<and> current_game (find_and_watch_stream w game s) = current_game s
   \<and> stop_event (find_and_watch_stream w game s) = stop_event s"
  by (simp add: find_and_watch_stream_def Let_def watch_stream_frame miner_log_frame
      split: sum.splits)

lemma continue_watching_frame:
  "is_running (continue_watching w s) = is_running s
   \<and> current_game (continue_watching w s) = current_game s
   \<and> stop_event (continue_watching w s) = stop_event s"
  by (simp add: continue_watching_def watch_stream_frame split: option.splits)

lemma switch_to_game_frame:
  "is_running (switch_to_game w game s) = is_running s
   \<and> current_game (switch_to_game w game s) = Some game
   \<and> stop_event (switch_to_game w game s) = stop_event s"
  by (simp add: switch_to_game_def update_status_frame miner_log_frame)

lemma process_next_game_is_running:
  "process_next_game w s = Inr s' \<Longrightarrow> is_running s' = is_running s"
  by (auto simp: process_next_game_def Let_def miner_log_frame switch_to_game_frame
        find_and_watch_stream_frame continue_watching_frame
      split: sum.splits if_splits option.splits)

lemma mining_loop_iteration_is_running:
  "is_running (mining_loop_iteration w s) = is_running s"
  by (auto simp: mining_loop_iteration_def miner_log_frame process_next_game_is_running
      split: sum.splits)


subsection \<open>Selecting the game\<close>

lemma select_next_game_first_match:
  "\<forall>x\<in>set pre. map_of gs x = None \<Longrightarrow> map_of gs game_id = Some g \<Longrightarrow>
     select_next_game (pre @ game_id # rest) gs = Some g"
  by (induction pre) simp_all

lemma select_next_game_none:
  "\<forall>x\<in>set ids. map_of gs x = None \<Longrightarrow> select_next_game ids gs = None"
  by (induction ids) simp_all

lemma process_next_game_target:
  assumes li: "is_logged_in (auth w) = Inr True"
    and sel: "select_next_game (settings_games w) (games w) = Some g"
    and ne: "settings_games w \<noteq> []"
  shows "\<exists>s'. process_next_game w s = Inr s'
           \<and> map_option g_id (current_game s') = Some (g_id g)"
proof (cases "case current_game s of None \<Rightarrow> True | Some g' \<Rightarrow> g_id g' \<noteq> g_id g")
  case True
  then show ?thesis using li sel ne
    by (simp add: process_next_game_def Let_def switch_to_game_frame
        find_and_watch_stream_frame continue_watching_frame)
next
  case False
  then obtain g' where "current_game s = Some g'" "g_id g' = g_id g"
    by (cases "current_game s") auto
  then show ?thesis using li sel ne
    by (simp add: process_next_game_def Let_def
        find_and_watch_stream_frame continue_watching_frame)
qed

text \<open>
  Claim C5. For every priority list of game ids and every catalog, when the session is
  logged in and \<open>game_id\<close> is the first id of the list that is a key of the catalog, the
  selection loop returns the catalog's game for that id, and the iteration leaves the
  Miner with a current game of that game's id: the first match wins, without weights.
\<close>

theorem first_game_in_catalog_is_selected:
  assumes "is_logged_in (auth w) = Inr True"
    and "settings_games w = pre @ game_id # rest"
    and "\<forall>x\<in>set pre. map_of (games w) x = None"
    and "map_of (games w) game_id = Some g"
  shows "select_next_game (settings_games w) (games w) = Some g
     \<and> (\<exists>s'. process_next_game w s = Inr s'
           \<and> map_option g_id (current_game s') = Some (g_id g))"
proof -
  from assms(2-4) have sel: "select_next_game (settings_games w) (games w) = Some g"
    by (simp add: select_next_game_first_match)
  from assms(2) have "settings_games w \<noteq> []" by simp
  from process_next_game_target[OF assms(1) sel this] sel show ?thesis by simp
qed


text \<open>An instance: watch list gameA, gameB, only gameB is known; gameB is selected.\<close>

theorem first_game_in_catalog_is_selected_witness:
  "is_logged_in (auth (world_at 0 [stream_1] True)) = Inr True
   \<and> settings_games (world_at 0 [stream_1] True) = [''gameA''] @ ''gameB'' # []
   \<and> map_of (games (world_at 0 [stream_1] True)) ''gameA'' = None
   \<and> map_of (games (world_at 0 [stream_1] True)) ''gameB'' = Some game_B
   \<and> select_next_game [''gameA'', ''gameB''] [(''gameB'', game_B)] = Some game_B
   \<and> (case process_next_game (world_at 0 [stream_1] True) Miner_init of
         Inl e \<Rightarrow> None
       | Inr s' \<Rightarrow> map_option g_id (current_game s')) = Some ''gameB''"
proof -
  have a1: "is_logged_in (auth (world_at 0 [stream_1] True)) = Inr True" by code_simp
  have a2: "settings_games (world_at 0 [stream_1] True) = [''gameA''] @ ''gameB'' # []"
    by (simp add: world_at_def)
  have a3: "\<forall>x\<in>set [''gameA'']. map_of (games (world_at 0 [stream_1] True)) x = None"
    by (simp add: world_at_def)
  have a4: "map_of (games (world_at 0 [stream_1] True)) ''gameB'' = Some game_B"
    by (simp add: world_at_def)
  from first_game_in_catalog_is_selected[OF a1 a2 a3 a4, of Miner_init] a1 a2 a3 a4
  show ?thesis by (auto simp: world_at_def game_B_def)
qed

subsection \<open>Broadcasts\<close>











subsection \<open>start, stop and the runs of the Miner\<close>

lemma start_running: "is_running (start w s)"
  by (simp add: start_def update_status_frame miner_log_frame)

lemma stop_clears:
  "is_running s \<Longrightarrow> \<not> is_running (stop w s) \<and> current_game (stop w s) = None
     \<and> current_stream (stop w s) = None \<and> watch_start_time (stop w s) = None"
  by (simp add: stop_def update_status_frame miner_log_frame)

lemma step_idle_no_stream:
  assumes "\<not> is_running s \<longrightarrow> current_stream s = None"
  shows "\<not> is_running (step a s) \<longrightarrow> current_stream (step a s) = None"
proof (cases a)
  case (Start w)
  then show ?thesis by (simp add: start_running)
next
  case (Stop w)
  then show ?thesis using assms stop_clears[of s w] by (cases "is_running s") (simp_all add: stop_def)
next
  case (Iteration w)
  show ?thesis
  proof (cases "is_running s")
    case True
    then show ?thesis using Iteration by (simp add: mining_loop_iteration_is_running)
  next
    case False
    then show ?thesis using Iteration assms by (simp add: mining_loop_iteration_def)
  qed
next
  case (AddClient c)
  then show ?thesis using assms by (simp add: add_ws_client_def)
next
  case (RemoveClient c)
  then show ?thesis using assms by (simp add: remove_ws_client_def)
qed

lemma run_idle_no_stream:
  "\<not> is_running s \<longrightarrow> current_stream s = None \<Longrightarrow>
   \<not> is_running (run as s) \<longrightarrow> current_stream (run as s) = None"
  by (induction as arbitrary: s) (simp_all add: step_idle_no_stream)

text \<open>
  In a run, where every call and every pass ends before the next begins, a Miner that is
  not running has no current stream. \<^verbatim>\<open>start\<close> changes nothing when the Miner is running,
  \<^verbatim>\<open>stop\<close> changes nothing when it is not, and \<^verbatim>\<open>stop\<close> on a running Miner clears the
  current game, the current stream and the watch start time.
\<close>

lemma run_of_whole_calls_idle_no_stream:
  "(\<not> is_running (run as Miner_init) \<longrightarrow> current_stream (run as Miner_init) = None)
   \<and> (is_running s \<longrightarrow> start w s = s)
   \<and> (\<not> is_running s \<longrightarrow> stop w s = s)
   \<and> (is_running s \<longrightarrow>
        \<not> is_running (stop w s) \<and> current_game (stop w s) = None
        \<and> current_stream (stop w s) = None \<and> watch_start_time (stop w s) = None)"
proof -
  have "\<not> is_running Miner_init \<longrightarrow> current_stream Miner_init = None"
    by (simp add: Miner_init_def)
  from run_idle_no_stream[OF this] stop_clears[of s w] show ?thesis
    by (simp add: start_def stop_def)
qed

text \<open>
  A pass that waits for its streams and resumes with no call in between does what the
  pass of a run does.
\<close>

lemma pass_to_discovery_iteration:
  "pass_to_discovery w s = Some (s1, g) \<Longrightarrow>
     mining_loop_iteration w s = find_and_watch_stream w g s1"
  by (auto simp: pass_to_discovery_def mining_loop_iteration_def process_next_game_def Let_def
      split: if_splits sum.splits option.splits)

lemma pass_without_overlap:
  "schedule [PassBegins w, PassResumes w] (s, None) = (mining_loop_iteration w s, None)"
  by (cases "pass_to_discovery w s") (auto simp: pass_to_discovery_iteration)

text \<open>
  Claim C8 says that in every state reachable by \<^verbatim>\<open>start\<close> and \<^verbatim>\<open>stop\<close> calls and loop
  iterations a Miner that is not running has no current stream. In the schedule below
  \<^verbatim>\<open>stop\<close> gives up its join while the first pass waits for its streams, and clears the
  state; the pass then resumes, adopts stream 1 and saves a status: the Miner is not
  running and has a current stream.
\<close>

theorem stop_during_pass_leaves_stream:
  "snd (schedule stop_while_waiting (Miner_init, None)) = Some game_B
   \<and> \<not> is_running (fst (schedule stop_while_waiting (Miner_init, None)))
   \<and> current_stream (fst (schedule stop_while_waiting (Miner_init, None))) = None
   \<and> \<not> is_running (fst (schedule resumed_after_stop (Miner_init, None)))
   \<and> map_option st_id (current_stream (fst (schedule resumed_after_stop (Miner_init, None))))
       = Some ''s1''
   \<and> map (\<lambda>status. (ms_is_running status, map_option st_id (ms_current_stream status)))
        (statuses (fst (schedule resumed_after_stop (Miner_init, None))))
       = [(True, None), (True, None), (False, None), (False, Some ''s1'')]"
  by code_simp

subsection \<open>A failed watch request\<close>

lemma watch_stream_failure:
  "\<not> watch_ok w \<Longrightarrow>
     current_stream (watch_stream w stream s) = None
     \<and> watch_start_time (watch_stream w stream s) = None
     \<and> statuses (watch_stream w stream s) = statuses s"
  by (simp add: watch_stream_def Let_def miner_log_frame)

text \<open>
  Claim C6 says that after a failed watch request the next status snapshot has no current
  stream. The handler of \<^verbatim>\<open>_watch_stream\<close> clears the stream and the watch start time but
  does not call \<^verbatim>\<open>_update_status\<close>: in the run below the iteration whose watch request
  raises saves no status, so the stored status still names stream 1, and the next status,
  saved by the following iteration, names stream 2.
\<close>

theorem failed_watch_emits_no_status:
  "map_option st_id (current_stream (run watch_run Miner_init)) = Some ''s1''
   \<and> current_stream (run failed_watch_run Miner_init) = None
   \<and> statuses (run failed_watch_run Miner_init) = statuses (run watch_run Miner_init)
   \<and> map (\<lambda>status. map_option st_id (ms_current_stream status))
        (statuses (run failed_watch_run Miner_init)) = [None, None, Some ''s1'']
   \<and> map (\<lambda>status. map_option st_id (ms_current_stream status))
        (statuses (run next_watch_run Miner_init)) = [None, None, Some ''s1'', Some ''s2'']"
  by code_simp

end
